theory Spec2Isabelle
  imports Complex_Main "HOL-Library.Log_Nat"
begin

text \<open>
  The reconciliation component \<open>ReconciliationTool\<close>: the normalisation of the rows
  of an uploaded CSV file (\<open>handleFileUpload\<close>), the matching of the internal records
  against the provider records by transaction reference (\<open>performReconciliation\<close>), and
  the JavaScript values, numbers and strings these two work on.
\<close>

section \<open>JavaScript numbers\<close>

text \<open>
  A JavaScript number is an IEEE 754 double: not-a-number, an infinity, or a finite
  value. A finite double is held by its exact rational value; the two zeros are not
  told apart (no operation of the component distinguishes them). Every arithmetic
  result is rounded to the nearest double, ties to even, by \<open>round_double\<close>.
\<close>

datatype jsnum = NaN | PInf | NInf | Fin rat

definition round_half_even :: "rat \<Rightarrow> int" where
  "round_half_even x =
     (let f = \<lfloor>x\<rfloor>; d = x - of_int f
      in if d < 1 / 2 then f
         else if 1 / 2 < d then f + 1
         else if even f then f else f + 1)"

definition pow2 :: "int \<Rightarrow> rat" where
  "pow2 e = (if 0 \<le> e then 2 ^ nat e else 1 / 2 ^ nat (- e))"

definition ilog2 :: "rat \<Rightarrow> int" where
  \<comment> \<open>for \<open>0 < q\<close>: the \<open>e\<close> with \<open>2 ^ e \<le> q < 2 ^ (e + 1)\<close>\<close>
  "ilog2 q =
     (let (a, b) = quotient_of q; est = bitlen a - bitlen b
      in if pow2 est \<le> q then est else est - 1)"

definition round_double :: "rat \<Rightarrow> jsnum" where
  \<comment> \<open>\<open>e\<close> is the binary exponent (at least that of the subnormals), \<open>n\<close> the rounded
      53-bit significand; the result overflows when it would reach \<open>2 ^ 1024\<close>\<close>
  "round_double q =
     (if q = 0 then Fin 0
      else
        let e = max (ilog2 \<bar>q\<bar>) (- 1022);
            ulp = pow2 (e - 52);
            n = round_half_even (q / ulp)
        in if 1024 \<le> e \<or> (e = 1023 \<and> 2 ^ 53 \<le> \<bar>n\<bar>)
           then (if 0 < q then PInf else NInf)
           else Fin (of_int n * ulp))"

fun js_sub :: "jsnum \<Rightarrow> jsnum \<Rightarrow> jsnum" where
  "js_sub NaN _ = NaN"
| "js_sub _ NaN = NaN"
| "js_sub PInf PInf = NaN"
| "js_sub NInf NInf = NaN"
| "js_sub PInf _ = PInf"
| "js_sub NInf _ = NInf"
| "js_sub (Fin a) PInf = NInf"
| "js_sub (Fin a) NInf = PInf"
| "js_sub (Fin a) (Fin b) = round_double (a - b)"

fun Math_abs :: "jsnum \<Rightarrow> jsnum" where
  "Math_abs NaN = NaN"
| "Math_abs PInf = PInf"
| "Math_abs NInf = PInf"
| "Math_abs (Fin a) = Fin \<bar>a\<bar>"

fun js_gt :: "jsnum \<Rightarrow> jsnum \<Rightarrow> bool" where
  "js_gt NaN _ = False"
| "js_gt _ NaN = False"
| "js_gt PInf y = (y \<noteq> PInf)"
| "js_gt NInf _ = False"
| "js_gt (Fin a) PInf = False"
| "js_gt (Fin a) NInf = True"
| "js_gt (Fin a) (Fin b) = (b < a)"

fun js_neg :: "jsnum \<Rightarrow> jsnum" where
  "js_neg NaN = NaN"
| "js_neg PInf = NInf"
| "js_neg NInf = PInf"
| "js_neg (Fin a) = Fin (- a)"

section \<open>JavaScript strings\<close>

text \<open>
  Strings are lists of code units; the model covers the code units below 256
  (Latin-1), where \<open>trim\<close> and \<open>toLowerCase\<close> are given in full.
\<close>

definition is_ws :: "char \<Rightarrow> bool" where
  \<comment> \<open>white space and line terminators, as removed by \<open>String.prototype.trim\<close>\<close>
  "is_ws c = (c \<in> set [CHR 0x09, CHR 0x0A, CHR 0x0B, CHR 0x0C, CHR 0x0D, CHR 0x20, CHR 0xA0])"

definition trimStart :: "string \<Rightarrow> string" where
  "trimStart s = dropWhile is_ws s"

definition trim :: "string \<Rightarrow> string" where
  "trim s = rev (dropWhile is_ws (rev (dropWhile is_ws s)))"

definition lower_char :: "char \<Rightarrow> char" where
  "lower_char c =
     (let n = (of_char c :: int)
      in if (65 \<le> n \<and> n \<le> 90) \<or> (192 \<le> n \<and> n \<le> 222 \<and> n \<noteq> 215)
         then char_of (n + 32) else c)"

definition toLowerCase :: "string \<Rightarrow> string" where
  "toLowerCase s = map lower_char s"

fun join :: "string \<Rightarrow> string list \<Rightarrow> string" where
  "join sep [] = []"
| "join sep [x] = x"
| "join sep (x # y # ys) = x @ sep @ join sep (y # ys)"

subsection \<open>\<open>parseFloat\<close> on strings\<close>

definition is_digit :: "char \<Rightarrow> bool" where
  "is_digit c = (c \<in> set ''0123456789'')"

definition digits_val :: "string \<Rightarrow> int" where
  "digits_val ds = foldl (\<lambda>n c. 10 * n + (of_char c - 48)) 0 ds"

definition pow10 :: "int \<Rightarrow> rat" where
  "pow10 e = (if 0 \<le> e then 10 ^ nat e else 1 / 10 ^ nat (- e))"

definition exponent_digits :: "string \<Rightarrow> int option" where
  "exponent_digits s =
     (if takeWhile is_digit s = [] then None
      else Some (digits_val (takeWhile is_digit s)))"

fun parse_exponent :: "string \<Rightarrow> int" where
  \<comment> \<open>the value of a leading exponent part, 0 when there is none\<close>
  "parse_exponent [] = 0"
| "parse_exponent (c # t) =
     (if c = CHR ''e'' \<or> c = CHR ''E'' then
        (case t of
           [] \<Rightarrow> 0
         | d # u \<Rightarrow>
             if d = CHR ''+'' then (case exponent_digits u of None \<Rightarrow> 0 | Some n \<Rightarrow> n)
             else if d = CHR ''-'' then (case exponent_digits u of None \<Rightarrow> 0 | Some n \<Rightarrow> - n)
             else (case exponent_digits t of None \<Rightarrow> 0 | Some n \<Rightarrow> n))
      else 0)"

definition parse_unsigned :: "string \<Rightarrow> jsnum" where
  \<comment> \<open>the longest prefix that is an unsigned decimal literal, rounded to a double\<close>
  "parse_unsigned s =
     (if take 8 s = ''Infinity'' then PInf
      else
        let ip = takeWhile is_digit s;
            r1 = dropWhile is_digit s;
            fp = (case r1 of [] \<Rightarrow> [] | c # t \<Rightarrow> if c = CHR ''.'' then takeWhile is_digit t else []);
            r2 = (case r1 of [] \<Rightarrow> [] | c # t \<Rightarrow> if c = CHR ''.'' then dropWhile is_digit t else r1)
        in if ip = [] \<and> fp = [] then NaN
           else round_double
                  (of_int (digits_val (ip @ fp)) * pow10 (parse_exponent r2 - int (length fp))))"

definition parse_float_string :: "string \<Rightarrow> jsnum" where
  "parse_float_string s =
     (case trimStart s of
        [] \<Rightarrow> NaN
      | c # t \<Rightarrow>
          if c = CHR ''-'' then js_neg (parse_unsigned t)
          else if c = CHR ''+'' then parse_unsigned t
          else parse_unsigned (c # t))"

subsection \<open>Number to string\<close>

text \<open>
  \<open>String(x)\<close> for a number: the shortest decimal digits \<open>s\<close> (\<open>k\<close> of them) and the
  position \<open>n\<close> of the decimal point such that \<open>s * 10 ^ (n - k)\<close> rounds to \<open>x\<close>, laid
  out in positional or exponent form.
\<close>

function digits :: "int \<Rightarrow> string" where
  "digits n =
     (if n < 10 then [char_of (48 + n)]
      else digits (n div 10) @ [char_of (48 + n mod 10)])"
  by pat_completeness auto
termination
  by (relation "measure nat") auto

definition ilog10 :: "rat \<Rightarrow> int" where
  \<comment> \<open>for \<open>0 < q\<close>: the \<open>e\<close> with \<open>10 ^ e \<le> q < 10 ^ (e + 1)\<close>\<close>
  "ilog10 q =
     (let est = (ilog2 q * 30103) div 100000
      in if pow10 (est + 1) \<le> q then est + 1
         else if pow10 est \<le> q then est
         else est - 1)"

definition candidates :: "rat \<Rightarrow> int \<Rightarrow> int \<Rightarrow> (int \<times> int) list" where
  \<comment> \<open>the \<open>(s, n)\<close> with \<open>k\<close> digits that round to \<open>q\<close>, the one nearest to \<open>q\<close> first\<close>
  "candidates q n k =
     (let u = pow10 (n - k);
          lo = \<lfloor>q / u\<rfloor>;
          d = q / u - of_int lo;
          ordered = (if d < 1 / 2 \<or> (d = 1 / 2 \<and> even lo) then [lo, lo + 1] else [lo + 1, lo])
      in map (\<lambda>s. if s = 10 ^ nat k then (10 ^ nat (k - 1), n + 1) else (s, n))
           (filter (\<lambda>s. round_double (of_int s * u) = Fin q) ordered))"

definition shortest_digits :: "rat \<Rightarrow> int \<times> int" where
  "shortest_digits q =
     (case concat (map (candidates q (ilog10 q + 1)) [1 .. 17]) of
        [] \<Rightarrow> (0, 0)
      | c # _ \<Rightarrow> c)"

definition zeros :: "int \<Rightarrow> string" where
  "zeros n = replicate (nat n) CHR ''0''"

definition layout :: "string \<Rightarrow> int \<Rightarrow> string" where
  "layout ds n =
     (let k = int (length ds)
      in if k \<le> n \<and> n \<le> 21 then ds @ zeros (n - k)
         else if 0 < n \<and> n \<le> 21 then take (nat n) ds @ ''.'' @ drop (nat n) ds
         else if - 6 < n \<and> n \<le> 0 then ''0.'' @ zeros (- n) @ ds
         else
           let e = n - 1;
               es = (if e < 0 then ''-'' else ''+'') @ digits \<bar>e\<bar>
           in if k = 1 then ds @ ''e'' @ es
              else take 1 ds @ ''.'' @ drop 1 ds @ ''e'' @ es)"

fun Number_toString :: "jsnum \<Rightarrow> string" where
  "Number_toString NaN = ''NaN''"
| "Number_toString PInf = ''Infinity''"
| "Number_toString NInf = ''-Infinity''"
| "Number_toString (Fin q) =
     (if q = 0 then ''0''
      else
        let (s, n) = shortest_digits \<bar>q\<bar>
        in (if q < 0 then ''-'' else []) @ layout (digits s) n)"

section \<open>Values of a parsed CSV row\<close>

text \<open>
  With \<open>dynamicTyping\<close> the CSV parser hands over each cell as a number, a boolean,
  a date object, \<open>null\<close> (an empty cell) or the cell's text; a column the row does not
  have reads as \<open>undefined\<close>. A date object is held by its string rendering.
\<close>

datatype jsval = JUndefined | JNull | JBool bool | JNum jsnum | JStr string | JDate string

type_synonym row = "(string \<times> jsval) list"

definition field :: "row \<Rightarrow> string \<Rightarrow> jsval" where
  "field r k = (case map_of r k of None \<Rightarrow> JUndefined | Some v \<Rightarrow> v)"

fun truthy :: "jsval \<Rightarrow> bool" where
  "truthy JUndefined = False"
| "truthy JNull = False"
| "truthy (JBool b) = b"
| "truthy (JNum x) = (x \<noteq> NaN \<and> x \<noteq> Fin 0)"
| "truthy (JStr s) = (s \<noteq> [])"
| "truthy (JDate s) = True"

fun js_String :: "jsval \<Rightarrow> string" where
  \<comment> \<open>\<open>String(v)\<close>\<close>
  "js_String JUndefined = ''undefined''"
| "js_String JNull = ''null''"
| "js_String (JBool b) = (if b then ''true'' else ''false'')"
| "js_String (JNum x) = Number_toString x"
| "js_String (JStr s) = s"
| "js_String (JDate s) = s"

definition parseFloat :: "jsval \<Rightarrow> jsnum" where
  \<comment> \<open>\<open>parseFloat\<close> converts its argument to a string and parses that\<close>
  "parseFloat v = parse_float_string (js_String v)"

section \<open>Normalised records (\<open>handleFileUpload\<close>)\<close>

text \<open>
  The object built for each row, \<open>{...row, transaction_reference, amount, status}\<close>:
  the three normalised properties, typed as the code leaves them (a string, a number
  or \<open>null\<close>, a string or \<open>null\<close>), and in \<open>other\<close> the row's remaining columns,
  copied by the spread.
\<close>

record nrec =
  transaction_reference :: string
  amount :: "jsnum option"
  status :: "string option"
  other :: row

definition processRow :: "row \<Rightarrow> nrec" where
  "processRow r =
     \<lparr> transaction_reference =
         trim (js_String
           (if truthy (field r ''transaction_reference'')
            then field r ''transaction_reference'' else JStr [])),
       amount =
         (if truthy (field r ''amount'') then Some (parseFloat (field r ''amount'')) else None),
       status =
         (if truthy (field r ''status'')
          then Some (trim (toLowerCase (js_String (field r ''status''))))
          else None),
       other =
         filter (\<lambda>(k, v). k \<notin> set [''transaction_reference'', ''amount'', ''status'']) r \<rparr>"

definition processData :: "row list \<Rightarrow> nrec list" where
  "processData rows =
     filter (\<lambda>r. transaction_reference r \<noteq> []) (map processRow rows)"

section \<open>Reconciliation (\<open>performReconciliation\<close>)\<close>

text \<open>
  The match object; its property \<open>transaction_reference\<close> is the field \<open>reference\<close> here.
\<close>

record match_result =
  reference :: string
  internal :: nrec
  provider :: nrec
  amountMatch :: bool
  statusMatch :: bool

record summary =
  totalInternal :: nat
  totalProvider :: nat
  matchedCount :: nat
  internalOnlyCount :: nat
  providerOnlyCount :: nat
  amountMismatchCount :: nat
  statusMismatchCount :: nat

record buckets =
  matched :: "match_result list"
  internalOnly :: "nrec list"
  providerOnly :: "nrec list"
  amountMismatches :: "match_result list"
  statusMismatches :: "match_result list"

record results = buckets +
  summary :: summary

definition tolerance :: jsnum where
  \<comment> \<open>the literal \<open>0.01\<close>\<close>
  "tolerance = round_double (1 / 100)"

fun amount_mismatch :: "jsnum option \<Rightarrow> jsnum option \<Rightarrow> bool" where
  \<comment> \<open>\<open>a !== null && b !== null\<close>, then \<open>Math.abs(a - b) > 0.01\<close>\<close>
  "amount_mismatch (Some a) (Some b) = js_gt (Math_abs (js_sub a b)) tolerance"
| "amount_mismatch _ _ = False"

fun status_mismatch :: "string option \<Rightarrow> string option \<Rightarrow> bool" where
  \<comment> \<open>\<open>s && t\<close> (\<open>null\<close> and the empty string are falsy), then \<open>s !== t\<close>\<close>
  "status_mismatch (Some s) (Some t) = (s \<noteq> [] \<and> t \<noteq> [] \<and> s \<noteq> t)"
| "status_mismatch _ _ = False"

definition build_map :: "nrec list \<Rightarrow> (string \<rightharpoonup> nrec)" where
  \<comment> \<open>\<open>data.forEach(record => map.set(record.transaction_reference, record))\<close>\<close>
  "build_map recs = foldl (\<lambda>m record. m(transaction_reference record \<mapsto> record)) Map.empty recs"

text \<open>
  The \<open>matchResult\<close> object of one internal record and the provider record found for
  it. The lists hold references to this one object, whose flags are set before the loop
  body ends, so every list shows it with its final flags.
\<close>

definition match_of :: "nrec \<Rightarrow> nrec \<Rightarrow> match_result" where
  "match_of internalRecord providerRecord =
     \<lparr> reference = transaction_reference internalRecord,
       internal = internalRecord,
       provider = providerRecord,
       amountMatch = (\<not> amount_mismatch (amount internalRecord) (amount providerRecord)),
       statusMatch = (\<not> status_mismatch (status internalRecord) (status providerRecord)) \<rparr>"

definition check_internal :: "(string \<rightharpoonup> nrec) \<Rightarrow> buckets \<Rightarrow> nrec \<Rightarrow> buckets" where
  \<comment> \<open>the body of the loop over the internal records\<close>
  "check_internal providerMap b internalRecord =
     (case providerMap (transaction_reference internalRecord) of
        Some providerRecord \<Rightarrow>
          let matchResult = match_of internalRecord providerRecord
          in b\<lparr> amountMismatches :=
                 (if amount_mismatch (amount internalRecord) (amount providerRecord)
                  then amountMismatches b @ [matchResult] else amountMismatches b),
               statusMismatches :=
                 (if status_mismatch (status internalRecord) (status providerRecord)
                  then statusMismatches b @ [matchResult] else statusMismatches b),
               matched := matched b @ [matchResult] \<rparr>
      | None \<Rightarrow> b\<lparr> internalOnly := internalOnly b @ [internalRecord] \<rparr>)"

definition check_provider :: "(string \<rightharpoonup> nrec) \<Rightarrow> buckets \<Rightarrow> nrec \<Rightarrow> buckets" where
  \<comment> \<open>the body of the loop over the provider records\<close>
  "check_provider internalMap b providerRecord =
     (if internalMap (transaction_reference providerRecord) = None
      then b\<lparr> providerOnly := providerOnly b @ [providerRecord] \<rparr>
      else b)"

definition empty_buckets :: buckets where
  "empty_buckets =
     \<lparr> matched = [], internalOnly = [], providerOnly = [],
       amountMismatches = [], statusMismatches = [] \<rparr>"

definition reconcile :: "nrec list \<Rightarrow> nrec list \<Rightarrow> results" where
  "reconcile internalData providerData =
     (let internalMap = build_map internalData;
          providerMap = build_map providerData;
          b1 = foldl (check_internal providerMap) empty_buckets internalData;
          b2 = foldl (check_provider internalMap) b1 providerData
      in \<lparr> matched = matched b2, internalOnly = internalOnly b2, providerOnly = providerOnly b2,
           amountMismatches = amountMismatches b2, statusMismatches = statusMismatches b2,
           summary =
             \<lparr> totalInternal = length internalData,
               totalProvider = length providerData,
               matchedCount = length (matched b2),
               internalOnlyCount = length (internalOnly b2),
               providerOnlyCount = length (providerOnly b2),
               amountMismatchCount = length (amountMismatches b2),
               statusMismatchCount = length (statusMismatches b2) \<rparr> \<rparr>)"

section \<open>Component state\<close>

datatype side = Internal | Provider

text \<open>
  What the CSV parser reports to \<open>handleFileUpload\<close>: the \<open>complete\<close> callback with the
  messages of \<open>results.errors\<close>, the header names \<open>results.meta.fields\<close> (already
  lower-cased and underscored by \<open>transformHeader\<close>) and the rows \<open>results.data\<close>; or the
  \<open>error\<close> callback with a message.
\<close>

record papa_results =
  errors :: "string list"
  meta_fields :: "string list option"
  data :: "row list"

datatype papa_outcome = Complete papa_results | ReadError string

text \<open>
  A pending \<open>setTimeout\<close> callback: the reconciliation over the two sequences its
  closure captured, or the display of the results.
\<close>

datatype task = ReconcileTask "nrec list" "nrec list" | ShowResultsTask

record state =
  internalFile :: "string option"
  providerFile :: "string option"
  internalData :: "nrec list"
  providerData :: "nrec list"
  reconciliationResults :: "results option"
  isProcessing :: bool
  showResults :: bool
  uploadErrors :: "side \<Rightarrow> string option"
  timers :: "(nat \<times> task) list"

definition set_upload_error :: "side \<Rightarrow> string option \<Rightarrow> state \<Rightarrow> state" where
  \<comment> \<open>\<open>setUploadErrors(prev => ({ ...prev, [type]: msg }))\<close>\<close>
  "set_upload_error type msg s = s\<lparr> uploadErrors := (uploadErrors s)(type := msg) \<rparr>"

definition requiredColumns :: "string list" where
  "requiredColumns = [''transaction_reference'']"

definition missing_columns :: "papa_results \<Rightarrow> string list" where
  "missing_columns res =
     (let headers = (case meta_fields res of None \<Rightarrow> [] | Some fs \<Rightarrow> fs)
      in filter (\<lambda>col. col \<notin> set headers) requiredColumns)"

definition complete :: "string \<Rightarrow> side \<Rightarrow> papa_results \<Rightarrow> state \<Rightarrow> state" where
  "complete file type res s =
     (case errors res of
        e # _ \<Rightarrow> set_upload_error type (Some (''CSV parsing error: '' @ e)) s
      | [] \<Rightarrow>
          if missing_columns res \<noteq> []
          then set_upload_error type
                 (Some (''Missing required columns: '' @ join '', '' (missing_columns res))) s
          else
            let processedData = processData (data res)
            in (case type of
                  Internal \<Rightarrow> s\<lparr> internalData := processedData, internalFile := Some file \<rparr>
                | Provider \<Rightarrow> s\<lparr> providerData := processedData, providerFile := Some file \<rparr>))"

definition handleFileUpload :: "string option \<Rightarrow> side \<Rightarrow> papa_outcome \<Rightarrow> state \<Rightarrow> state" where
  "handleFileUpload file type outcome s =
     (case file of
        None \<Rightarrow> s
      | Some f \<Rightarrow>
          let s1 = set_upload_error type None s
          in (case outcome of
                Complete res \<Rightarrow> complete f type res s1
              | ReadError msg \<Rightarrow>
                  set_upload_error type (Some (''File reading error: '' @ msg)) s1))"

definition performReconciliation :: "state \<Rightarrow> state" where
  \<comment> \<open>the call itself: the guard, the two flags, the 2000 ms timer\<close>
  "performReconciliation s =
     (if internalData s = [] \<or> providerData s = [] then s
      else s\<lparr> isProcessing := True, showResults := False,
             timers := timers s @ [(2000, ReconcileTask (internalData s) (providerData s))] \<rparr>)"

fun run_task :: "task \<Rightarrow> state \<Rightarrow> state" where
  "run_task (ReconcileTask internalData' providerData') s =
     s\<lparr> reconciliationResults := Some (reconcile internalData' providerData'),
        isProcessing := False,
        timers := timers s @ [(300, ShowResultsTask)] \<rparr>"
| "run_task ShowResultsTask s = s\<lparr> showResults := True \<rparr>"

definition performReconciliation_sync :: "state \<Rightarrow> state" where
  \<comment> \<open>the component's variant without the timers, which reconciles within the call\<close>
  "performReconciliation_sync s =
     (if internalData s = [] \<or> providerData s = [] then s
      else s\<lparr> reconciliationResults := Some (reconcile (internalData s) (providerData s)),
             isProcessing := False \<rparr>)"

section \<open>Auxiliary notions for the statements\<close>

definition matches_of :: "(string \<rightharpoonup> nrec) \<Rightarrow> nrec list \<Rightarrow> match_result list" where
  \<comment> \<open>the match results of the internal records that the provider map knows, in order\<close>
  "matches_of providerMap xs =
     List.map_filter (\<lambda>i. map_option (match_of i) (providerMap (transaction_reference i))) xs"

definition initial_state :: state where
  \<comment> \<open>the initial values of the \<open>useState\<close> hooks\<close>
  "initial_state =
     \<lparr> internalFile = None, providerFile = None, internalData = [], providerData = [],
       reconciliationResults = None, isProcessing = False, showResults = False,
       uploadErrors = (\<lambda>_. None), timers = [] \<rparr>"

definition txA :: nrec where
  "txA = \<lparr> transaction_reference = ''A'', amount = Some (Fin 100), status = Some ''paid'',
           other = [] \<rparr>"

definition txA_again :: nrec where
  "txA_again = \<lparr> transaction_reference = ''A'', amount = Some (Fin 100), status = Some ''paid'',
                 other = [(''note'', JStr ''resent'')] \<rparr>"

definition txB :: nrec where
  "txB = \<lparr> transaction_reference = ''B'', amount = Some (Fin 50), status = None, other = [] \<rparr>"

definition txA_blank :: nrec where
  "txA_blank = \<lparr> transaction_reference = ''A'', amount = None, status = None, other = [] \<rparr>"

definition txA_cent :: nrec where
  \<comment> \<open>amount \<open>0.01\<close>\<close>
  "txA_cent = \<lparr> transaction_reference = ''A'', amount = Some (parse_float_string ''0.01''),
                status = Some ''paid'', other = [] \<rparr>"

definition txA_tiny :: nrec where
  \<comment> \<open>amount \<open>-1e-30\<close>\<close>
  "txA_tiny = \<lparr> transaction_reference = ''A'', amount = Some (parse_float_string ''-1e-30''),
                status = Some ''paid'', other = [] \<rparr>"

definition txA_100 :: nrec where
  \<comment> \<open>amount \<open>100.00\<close>\<close>
  "txA_100 = \<lparr> transaction_reference = ''A'', amount = Some (parse_float_string ''100.00''),
               status = Some ''paid'', other = [] \<rparr>"

definition txA_100_01 :: nrec where
  \<comment> \<open>amount \<open>100.01\<close>\<close>
  "txA_100_01 = \<lparr> transaction_reference = ''A'', amount = Some (parse_float_string ''100.01''),
                  status = Some ''paid'', other = [] \<rparr>"

definition txA_zero :: nrec where
  "txA_zero = \<lparr> transaction_reference = ''A'', amount = Some (Fin 0), status = Some [],
                other = [] \<rparr>"

definition row_text_amount :: row where
  "row_text_amount = [(''transaction_reference'', JStr ''A''), (''amount'', JStr ''abc'')]"

definition row_zero_amount :: row where
  "row_zero_amount = [(''transaction_reference'', JStr ''T1''), (''amount'', JNum (Fin 0))]"

definition row_blank_status :: row where
  "row_blank_status = [(''transaction_reference'', JStr ''A''), (''status'', JStr ''  '')]"

definition state_internal_loaded :: state where
  \<comment> \<open>the internal file is in, the provider file is not\<close>
  "state_internal_loaded =
     initial_state\<lparr> internalData := [txA], internalFile := Some ''internal.csv'' \<rparr>"

definition results_without_reference :: papa_results where
  "results_without_reference =
     \<lparr> errors = [], meta_fields = Some [''id'', ''amount''],
       data = [[(''id'', JStr ''x1''), (''amount'', JStr ''5 USD'')]] \<rparr>"

definition results_without_reference_short_row :: papa_results where
  "results_without_reference_short_row =
     \<lparr> errors = [''Too few fields: expected 2 fields but parsed 1''],
       meta_fields = Some [''id'', ''amount''],
       data = [[(''id'', JStr ''x1'')]] \<rparr>"

section \<open>The loops in closed form\<close>

lemma matches_of_Nil [simp]: "matches_of pm [] = []"
  by (simp add: matches_of_def map_filter_simps)

lemma matches_of_Cons:
  "matches_of pm (x # xs) =
     (case pm (transaction_reference x) of
        None \<Rightarrow> matches_of pm xs
      | Some p \<Rightarrow> match_of x p # matches_of pm xs)"
  by (simp add: matches_of_def map_filter_simps split: option.splits)

lemma check_internal_None:
  "pm (transaction_reference x) = None \<Longrightarrow>
   check_internal pm b x = b\<lparr> internalOnly := internalOnly b @ [x] \<rparr>"
  by (simp add: check_internal_def)

lemma check_internal_Some:
  "pm (transaction_reference x) = Some p \<Longrightarrow>
   check_internal pm b x =
     b\<lparr> amountMismatches := amountMismatches b @ filter (\<lambda>m. \<not> amountMatch m) [match_of x p],
        statusMismatches := statusMismatches b @ filter (\<lambda>m. \<not> statusMatch m) [match_of x p],
        matched := matched b @ [match_of x p] \<rparr>"
  by (simp add: check_internal_def Let_def match_of_def)

lemma foldl_check_internal:
  "foldl (check_internal pm) b xs =
     b\<lparr> matched := matched b @ matches_of pm xs,
        internalOnly := internalOnly b @ filter (\<lambda>i. pm (transaction_reference i) = None) xs,
        amountMismatches :=
          amountMismatches b @ filter (\<lambda>m. \<not> amountMatch m) (matches_of pm xs),
        statusMismatches :=
          statusMismatches b @ filter (\<lambda>m. \<not> statusMatch m) (matches_of pm xs) \<rparr>"
proof (induction xs arbitrary: b)
  case Nil
  show ?case by simp
next
  case (Cons x xs)
  show ?case
  proof (cases "pm (transaction_reference x)")
    case None
    then show ?thesis
      by (simp add: Cons.IH check_internal_None matches_of_Cons)
  next
    case (Some p)
    then show ?thesis
      by (simp add: Cons.IH check_internal_Some matches_of_Cons)
  qed
qed

lemma foldl_check_provider:
  "foldl (check_provider im) b xs =
     b\<lparr> providerOnly := providerOnly b @ filter (\<lambda>p. im (transaction_reference p) = None) xs \<rparr>"
  by (induction xs arbitrary: b) (simp_all add: check_provider_def)

lemma build_map_snoc:
  "build_map (xs @ [x]) = (build_map xs)(transaction_reference x \<mapsto> x)"
  by (simp add: build_map_def)

lemma build_map_Nil [simp]: "build_map [] = Map.empty"
  by (simp add: build_map_def)

lemma build_map_last:
  "build_map xs k =
     (if filter (\<lambda>r. transaction_reference r = k) xs = [] then None
      else Some (last (filter (\<lambda>r. transaction_reference r = k) xs)))"
proof (induction xs rule: rev_induct)
  case Nil
  show ?case by simp
next
  case (snoc x xs)
  show ?case
    by (cases "transaction_reference x = k") (simp_all add: build_map_snoc snoc.IH)
qed

lemma build_map_None:
  "build_map xs k = None \<longleftrightarrow> k \<notin> transaction_reference ` set xs"
  by (auto simp: build_map_last filter_empty_conv)

lemma build_map_Some:
  assumes "build_map xs k = Some r"
  shows "r \<in> set xs \<and> transaction_reference r = k"
proof -
  let ?ys = "filter (\<lambda>r. transaction_reference r = k) xs"
  from assms have ne: "?ys \<noteq> []" and r: "r = last ?ys"
    by (simp_all add: build_map_last split: if_splits)
  have "last ?ys \<in> set ?ys"
    using ne by (rule last_in_set)
  then have "r \<in> set ?ys"
    by (simp only: r)
  then show ?thesis by simp
qed

lemma reconcile_matched: "matched (reconcile I P) = matches_of (build_map P) I"
  by (simp add: reconcile_def Let_def foldl_check_internal foldl_check_provider empty_buckets_def)

lemma reconcile_internalOnly:
  "internalOnly (reconcile I P) = filter (\<lambda>i. build_map P (transaction_reference i) = None) I"
  by (simp add: reconcile_def Let_def foldl_check_internal foldl_check_provider empty_buckets_def)

lemma reconcile_providerOnly:
  "providerOnly (reconcile I P) = filter (\<lambda>p. build_map I (transaction_reference p) = None) P"
  by (simp add: reconcile_def Let_def foldl_check_internal foldl_check_provider empty_buckets_def)

lemma reconcile_amountMismatches:
  "amountMismatches (reconcile I P) = filter (\<lambda>m. \<not> amountMatch m) (matches_of (build_map P) I)"
  by (simp add: reconcile_def Let_def foldl_check_internal foldl_check_provider empty_buckets_def)

lemma reconcile_statusMismatches:
  "statusMismatches (reconcile I P) = filter (\<lambda>m. \<not> statusMatch m) (matches_of (build_map P) I)"
  by (simp add: reconcile_def Let_def foldl_check_internal foldl_check_provider empty_buckets_def)

lemma reconcile_summary:
  "summary (reconcile I P) =
     \<lparr> totalInternal = length I, totalProvider = length P,
       matchedCount = length (matched (reconcile I P)),
       internalOnlyCount = length (internalOnly (reconcile I P)),
       providerOnlyCount = length (providerOnly (reconcile I P)),
       amountMismatchCount = length (amountMismatches (reconcile I P)),
       statusMismatchCount = length (statusMismatches (reconcile I P)) \<rparr>"
  by (simp add: reconcile_def Let_def)

lemma length_matches_of:
  "length (matches_of pm xs) = length (filter (\<lambda>i. pm (transaction_reference i) \<noteq> None) xs)"
  by (induction xs) (simp_all add: matches_of_Cons split: option.splits)

lemma in_matches_of:
  "m \<in> set (matches_of pm xs) \<longleftrightarrow>
     (\<exists>i \<in> set xs. \<exists>p. pm (transaction_reference i) = Some p \<and> m = match_of i p)"
  by (induction xs) (auto simp: matches_of_Cons split: option.splits)

lemma summary_matchedCount:
  "matchedCount (summary (reconcile I P)) = length (matches_of (build_map P) I)"
  by (simp add: reconcile_summary reconcile_matched)

lemma summary_internalOnlyCount:
  "internalOnlyCount (summary (reconcile I P)) =
     length (filter (\<lambda>i. build_map P (transaction_reference i) = None) I)"
  by (simp add: reconcile_summary reconcile_internalOnly)

lemma summary_providerOnlyCount:
  "providerOnlyCount (summary (reconcile I P)) =
     length (filter (\<lambda>p. build_map I (transaction_reference p) = None) P)"
  by (simp add: reconcile_summary reconcile_providerOnly)

lemma summary_totals:
  "totalInternal (summary (reconcile I P)) = length I"
  "totalProvider (summary (reconcile I P)) = length P"
  by (simp_all add: reconcile_summary)

lemma length_filter_ref:
  assumes "distinct (map transaction_reference xs)"
  shows "length (filter (\<lambda>x. transaction_reference x \<in> S) xs)
           = card (S \<inter> transaction_reference ` set xs)"
proof -
  have "length (filter (\<lambda>x. transaction_reference x \<in> S) xs)
          = length (filter (\<lambda>k. k \<in> S) (map transaction_reference xs))"
    by (simp add: filter_map comp_def)
  also have "\<dots> = card ({k. k \<in> S} \<inter> set (map transaction_reference xs))"
    using assms by (rule distinct_length_filter)
  finally show ?thesis by simp
qed

section \<open>Summary counts\<close>

text \<open>
  C7. For non-empty input sequences, the matched count and the internal-only count of
  the summary add up to \<open>totalInternal\<close>, which is the length of the internal sequence:
  every internal record is put into exactly one of \<open>matched\<close> and \<open>internalOnly\<close>.
\<close>

theorem internal_counts_add_up:
  assumes "I \<noteq> []" and "P \<noteq> []"
  shows "matchedCount (summary (reconcile I P)) + internalOnlyCount (summary (reconcile I P))
           = totalInternal (summary (reconcile I P))
         \<and> totalInternal (summary (reconcile I P)) = length I"
proof -
  let ?found = "\<lambda>i. build_map P (transaction_reference i) \<noteq> None"
  have "length (filter ?found I) + length (filter (\<lambda>i. \<not> ?found i) I) = length I"
    by (rule sum_length_filter_compl)
  then show ?thesis
    by (simp add: summary_matchedCount summary_internalOnlyCount summary_totals length_matches_of)
qed

theorem internal_counts_add_up_witness:
  "[txA, txA_again, txB] \<noteq> [] \<and> [txA] \<noteq> []
   \<and> matchedCount (summary (reconcile [txA, txA_again, txB] [txA])) = 2
   \<and> internalOnlyCount (summary (reconcile [txA, txA_again, txB] [txA])) = 1
   \<and> matchedCount (summary (reconcile [txA, txA_again, txB] [txA]))
       + internalOnlyCount (summary (reconcile [txA, txA_again, txB] [txA]))
     = totalInternal (summary (reconcile [txA, txA_again, txB] [txA]))
   \<and> totalInternal (summary (reconcile [txA, txA_again, txB] [txA])) = length [txA, txA_again, txB]"
proof -
  have m: "matchedCount (summary (reconcile [txA, txA_again, txB] [txA])) = 2"
    by code_simp
  have i: "internalOnlyCount (summary (reconcile [txA, txA_again, txB] [txA])) = 1"
    by code_simp
  show ?thesis
    using internal_counts_add_up [of "[txA, txA_again, txB]" "[txA]"] m i by simp
qed

text \<open>
  C1. The matched count and the provider-only count need not add up to \<open>totalProvider\<close>:
  \<open>matched\<close> is filled once per internal record, and two internal records with the
  reference \<open>A\<close> against one provider record \<open>A\<close> give 2 + 0 against a total of 1.
\<close>

theorem provider_counts_counterexample:
  "[txA, txA_again] \<noteq> [] \<and> [txA] \<noteq> []
   \<and> matchedCount (summary (reconcile [txA, txA_again] [txA])) = 2
   \<and> providerOnlyCount (summary (reconcile [txA, txA_again] [txA])) = 0
   \<and> totalProvider (summary (reconcile [txA, txA_again] [txA])) = 1
   \<and> matchedCount (summary (reconcile [txA, txA_again] [txA]))
       + providerOnlyCount (summary (reconcile [txA, txA_again] [txA]))
     \<noteq> totalProvider (summary (reconcile [txA, txA_again] [txA]))"
proof -
  have m: "matchedCount (summary (reconcile [txA, txA_again] [txA])) = 2"
    by code_simp
  have p: "providerOnlyCount (summary (reconcile [txA, txA_again] [txA])) = 0"
    by code_simp
  have t: "totalProvider (summary (reconcile [txA, txA_again] [txA])) = 1"
    by code_simp
  show ?thesis
    by (simp add: m p t)
qed

text \<open>
  C1, amended. For non-empty input sequences in which no reference occurs twice within
  the internal sequence or within the provider sequence, the matched count and the
  provider-only count add up to \<open>totalProvider\<close>, the length of the provider sequence.
\<close>

theorem provider_counts_add_up:
  assumes "I \<noteq> []" and "P \<noteq> []"
    and "distinct (map transaction_reference I)"
    and "distinct (map transaction_reference P)"
  shows "matchedCount (summary (reconcile I P)) + providerOnlyCount (summary (reconcile I P))
           = totalProvider (summary (reconcile I P))
         \<and> totalProvider (summary (reconcile I P)) = length P"
proof -
  let ?RI = "transaction_reference ` set I"
  let ?RP = "transaction_reference ` set P"
  have m: "length (matches_of (build_map P) I) = card (?RP \<inter> ?RI)"
    using assms(3) by (simp add: length_matches_of build_map_None length_filter_ref)
  have s: "length (filter (\<lambda>p. transaction_reference p \<in> ?RI) P) = card (?RI \<inter> ?RP)"
    using assms(4) by (rule length_filter_ref)
  have "length (filter (\<lambda>p. transaction_reference p \<in> ?RI) P)
          + length (filter (\<lambda>p. \<not> transaction_reference p \<in> ?RI) P) = length P"
    by (rule sum_length_filter_compl)
  with m s show ?thesis
    by (simp add: summary_matchedCount summary_providerOnlyCount summary_totals build_map_None
        Int_commute)
qed

theorem provider_counts_add_up_witness:
  "[txA, txB] \<noteq> [] \<and> [txA_again] \<noteq> []
   \<and> distinct (map transaction_reference [txA, txB])
   \<and> distinct (map transaction_reference [txA_again])
   \<and> matchedCount (summary (reconcile [txA, txB] [txA_again])) = 1
   \<and> matchedCount (summary (reconcile [txA, txB] [txA_again]))
       + providerOnlyCount (summary (reconcile [txA, txB] [txA_again]))
     = totalProvider (summary (reconcile [txA, txB] [txA_again]))
   \<and> totalProvider (summary (reconcile [txA, txB] [txA_again])) = length [txA_again]"
proof -
  have d: "distinct (map transaction_reference [txA, txB])"
    "distinct (map transaction_reference [txA_again])"
    by (simp_all add: txA_def txB_def txA_again_def)
  have m: "matchedCount (summary (reconcile [txA, txB] [txA_again])) = 1"
    by code_simp
  show ?thesis
    using provider_counts_add_up [of "[txA, txB]" "[txA_again]"] d m by simp
qed

section \<open>Rounding against the tolerance\<close>

text \<open>
  The binary exponent found by \<open>ilog2\<close> is the right one, rounding to an integer is
  symmetric and monotone, and so the rounded difference exceeds the double \<open>0.01\<close>
  exactly from the midpoint between that double and the next one on.
\<close>

lemma pow2_powi: "pow2 e = 2 powi e"
  by (simp add: pow2_def power_int_def power_one_over inverse_eq_divide)

lemma pow2_pos [simp]: "0 < pow2 e"
  by (simp add: pow2_powi)

lemma pow2_add: "pow2 (i + j) = pow2 i * pow2 j"
  by (simp add: pow2_powi power_int_add)

lemma pow2_mono: "i \<le> j \<Longrightarrow> pow2 i \<le> pow2 j"
  by (simp add: pow2_powi power_int_increasing)

lemma pow2_nat: "0 \<le> e \<Longrightarrow> pow2 e = 2 ^ nat e"
  by (simp add: pow2_def)

lemma ilog2_bounds:
  assumes "0 < q"
  shows "pow2 (ilog2 q) \<le> q \<and> q < pow2 (ilog2 q + 1)"
proof -
  obtain a b where ab: "quotient_of q = (a, b)"
    by (cases "quotient_of q")
  then have b: "0 < b" and q: "q = of_int a / of_int b"
    by (simp_all add: quotient_of_denom_pos quotient_of_div)
  from assms q b have a: "0 < a"
    by (simp add: zero_less_divide_iff)
  let ?est = "bitlen a - bitlen b"
  from bitlen_bounds [OF a] have a1: "2 ^ nat (bitlen a - 1) \<le> a" and a2: "a < 2 ^ nat (bitlen a)"
    by simp_all
  from bitlen_bounds [OF b] have b1: "2 ^ nat (bitlen b - 1) \<le> b" and b2: "b < 2 ^ nat (bitlen b)"
    by simp_all
  have la: "1 \<le> bitlen a" and lb: "1 \<le> bitlen b"
    using a b by (simp_all add: bitlen_alt_def)
  have A1: "pow2 (bitlen a - 1) \<le> of_int a"
  proof -
    from a1 have "(of_int (2 ^ nat (bitlen a - 1)) :: rat) \<le> of_int a"
      by (simp only: of_int_le_iff)
    then show ?thesis using la by (simp add: pow2_nat)
  qed
  have A2: "(of_int a :: rat) < pow2 (bitlen a)"
  proof -
    from a2 have "(of_int a :: rat) < of_int (2 ^ nat (bitlen a))"
      by (simp only: of_int_less_iff)
    then show ?thesis using la by (simp add: pow2_nat)
  qed
  have B1: "pow2 (bitlen b - 1) \<le> of_int b"
  proof -
    from b1 have "(of_int (2 ^ nat (bitlen b - 1)) :: rat) \<le> of_int b"
      by (simp only: of_int_le_iff)
    then show ?thesis using lb by (simp add: pow2_nat)
  qed
  have B2: "(of_int b :: rat) < pow2 (bitlen b)"
  proof -
    from b2 have "(of_int b :: rat) < of_int (2 ^ nat (bitlen b))"
      by (simp only: of_int_less_iff)
    then show ?thesis using lb by (simp add: pow2_nat)
  qed
  have bpos: "(0 :: rat) < of_int b"
    using b by simp
  have up: "q < pow2 (?est + 1)"
  proof -
    have "of_int a < pow2 (bitlen a)" by (rule A2)
    also have "\<dots> = pow2 (?est + 1) * pow2 (bitlen b - 1)"
      by (simp add: pow2_add [symmetric])
    also have "\<dots> \<le> pow2 (?est + 1) * of_int b"
      using B1 by (simp add: mult_left_mono less_imp_le)
    finally show ?thesis
      using bpos by (simp add: q pos_divide_less_eq)
  qed
  have lo: "pow2 (?est - 1) < q"
  proof -
    have "pow2 (?est - 1) * of_int b < pow2 (?est - 1) * pow2 (bitlen b)"
      using B2 by (simp add: mult_strict_left_mono)
    also have "\<dots> = pow2 (bitlen a - 1)"
      by (simp add: pow2_add [symmetric])
    also have "\<dots> \<le> of_int a" by (rule A1)
    finally show ?thesis
      using bpos by (simp add: q pos_less_divide_eq)
  qed
  show ?thesis
    using up lo ab by (auto simp: ilog2_def Let_def less_imp_le)
qed

lemma ilog2_unique:
  assumes "pow2 e \<le> q" and "q < pow2 (e + 1)"
  shows "ilog2 q = e"
proof -
  from assms(1) have q: "0 < q"
    using pow2_pos [of e] by linarith
  from ilog2_bounds [OF q] have l: "pow2 (ilog2 q) \<le> q" and u: "q < pow2 (ilog2 q + 1)"
    by simp_all
  have "\<not> ilog2 q + 1 \<le> e"
    using pow2_mono [of "ilog2 q + 1" e] u assms(1) by auto
  moreover have "\<not> e + 1 \<le> ilog2 q"
    using pow2_mono [of "e + 1" "ilog2 q"] l assms(2) by auto
  ultimately show ?thesis by linarith
qed

lemma rhe_range: "\<lfloor>x\<rfloor> \<le> round_half_even x \<and> round_half_even x \<le> \<lfloor>x\<rfloor> + 1"
  by (simp add: round_half_even_def Let_def)

lemma rhe_ge:
  assumes "of_int k \<le> x"
  shows "k \<le> round_half_even x"
proof -
  from assms have "k \<le> \<lfloor>x\<rfloor>" by (simp only: le_floor_iff)
  with rhe_range [of x] show ?thesis by linarith
qed

lemma rhe_le:
  assumes "x \<le> of_int k"
  shows "round_half_even x \<le> k"
proof (cases "x = of_int k")
  case True
  then show ?thesis by (simp add: round_half_even_def Let_def)
next
  case False
  with assms have "x < of_int k" by simp
  then have "\<lfloor>x\<rfloor> < k" by (simp add: floor_less_iff)
  with rhe_range [of x] show ?thesis by linarith
qed

lemma rhe_even_threshold:
  assumes "even k"
  shows "(k \<le> round_half_even x) = (of_int k - 1 / 2 \<le> x)"
proof
  assume h: "of_int k - 1 / 2 \<le> x"
  then have "of_int (k - 1) \<le> x" by simp
  then have f: "k - 1 \<le> \<lfloor>x\<rfloor>" by (simp only: le_floor_iff)
  show "k \<le> round_half_even x"
  proof (cases "k \<le> \<lfloor>x\<rfloor>")
    case True
    with rhe_range [of x] show ?thesis by linarith
  next
    case False
    with f have e: "\<lfloor>x\<rfloor> = k - 1" by linarith
    then have o: "odd \<lfloor>x\<rfloor>" using assms by simp
    from h e have "1 / 2 \<le> x - of_int \<lfloor>x\<rfloor>" by simp
    then show ?thesis
      using e o by (simp add: round_half_even_def Let_def)
  qed
next
  assume h: "k \<le> round_half_even x"
  show "of_int k - 1 / 2 \<le> x"
  proof (rule ccontr)
    assume "\<not> of_int k - 1 / 2 \<le> x"
    then have lt: "x < of_int k - 1 / 2" by simp
    then have "x < of_int k" by linarith
    then have f: "\<lfloor>x\<rfloor> \<le> k - 1" by (simp add: floor_less_iff)
    show False
    proof (cases "\<lfloor>x\<rfloor> = k - 1")
      case True
      with lt have "x - of_int \<lfloor>x\<rfloor> < 1 / 2" by simp
      then have "round_half_even x = \<lfloor>x\<rfloor>"
        by (simp add: round_half_even_def Let_def)
      with True h show False by simp
    next
      case False
      with f have "\<lfloor>x\<rfloor> + 1 \<le> k - 1" by linarith
      with rhe_range [of x] h show False by linarith
    qed
  qed
qed

lemma rhe_minus: "round_half_even (- x) = - round_half_even x"
proof (cases "x = of_int \<lfloor>x\<rfloor>")
  case True
  then obtain k where x: "x = of_int k" ..
  show ?thesis
    by (simp add: x round_half_even_def Let_def del: of_int_minus flip: of_int_minus)
next
  case False
  then have fl: "\<lfloor>- x\<rfloor> = - \<lfloor>x\<rfloor> - 1"
    by (metis floor_minus ceiling_altdef uminus_add_conv_diff minus_diff_eq
        diff_minus_eq_add minus_minus)
  let ?d = "x - of_int \<lfloor>x\<rfloor>"
  have d': "- x - of_int \<lfloor>- x\<rfloor> = 1 - ?d"
    by (simp add: fl)
  have ev: "even (\<lfloor>- x\<rfloor>) = odd \<lfloor>x\<rfloor>"
    by (simp add: fl)
  consider "?d < 1 / 2" | "?d = 1 / 2" | "1 / 2 < ?d" by linarith
  then show ?thesis
  proof cases
    case 1
    then have "round_half_even x = \<lfloor>x\<rfloor>"
      by (simp add: round_half_even_def Let_def)
    moreover from 1 have "round_half_even (- x) = \<lfloor>- x\<rfloor> + 1"
      unfolding round_half_even_def Let_def d' by simp
    ultimately show ?thesis by (simp add: fl)
  next
    case 2
    then have "round_half_even x = (if even \<lfloor>x\<rfloor> then \<lfloor>x\<rfloor> else \<lfloor>x\<rfloor> + 1)"
      by (simp add: round_half_even_def Let_def)
    moreover from 2 have "round_half_even (- x) = (if even \<lfloor>- x\<rfloor> then \<lfloor>- x\<rfloor> else \<lfloor>- x\<rfloor> + 1)"
      unfolding round_half_even_def Let_def d' by simp
    ultimately show ?thesis by (simp add: fl)
  next
    case 3
    then have "round_half_even x = \<lfloor>x\<rfloor> + 1"
      by (simp add: round_half_even_def Let_def)
    moreover from 3 have "round_half_even (- x) = \<lfloor>- x\<rfloor>"
      unfolding round_half_even_def Let_def d' by simp
    ultimately show ?thesis by (simp add: fl)
  qed
qed

lemma round_double_nonzero:
  assumes "q \<noteq> 0" and "e = max (ilog2 \<bar>q\<bar>) (- 1022)"
    and "n = round_half_even (q / pow2 (e - 52))"
  shows "round_double q =
           (if 1024 \<le> e \<or> (e = 1023 \<and> 2 ^ 53 \<le> \<bar>n\<bar>) then (if 0 < q then PInf else NInf)
            else Fin (of_int n * pow2 (e - 52)))"
  unfolding assms(2,3) round_double_def Let_def using assms(1) by (simp only: if_False)

lemma pow2_values:
  "pow2 (- 7) = 1 / 128" "pow2 (- 6) = 1 / 64" "pow2 52 = of_int (2 ^ 52)"
  "pow2 53 = of_int (2 ^ 53)" "pow2 (- 59) = 1 / 2 ^ 59"
  by (simp_all add: pow2_def)

lemma round_double_pos:
  assumes "0 < q" and "e = max (ilog2 q) (- 1022)" and "n = round_half_even (q / pow2 (e - 52))"
  shows "round_double q =
           (if 1024 \<le> e \<or> (e = 1023 \<and> 2 ^ 53 \<le> \<bar>n\<bar>) then PInf
            else Fin (of_int n * pow2 (e - 52)))"
proof -
  from assms(1) have nz: "q \<noteq> 0" and a: "\<bar>q\<bar> = q" by simp_all
  from assms(2) have e: "e = max (ilog2 \<bar>q\<bar>) (- 1022)" by (simp only: a)
  show ?thesis
    unfolding round_double_nonzero [OF nz e assms(3)] using assms(1) by simp
qed

lemma round_double_minus: "round_double (- q) = js_neg (round_double q)"
proof (cases "q = 0")
  case True
  then show ?thesis by (simp add: round_double_def)
next
  case False
  define e where "e = max (ilog2 \<bar>q\<bar>) (- 1022)"
  define n where "n = round_half_even (q / pow2 (e - 52))"
  have e': "e = max (ilog2 \<bar>- q\<bar>) (- 1022)"
    by (simp add: e_def)
  have n': "- n = round_half_even (- q / pow2 (e - 52))"
    by (simp add: n_def rhe_minus)
  from False have nz: "- q \<noteq> 0" by simp
  have pos: "(0 < - q) = (\<not> 0 < q)"
    using False by auto
  show ?thesis
    unfolding round_double_nonzero [OF False e_def n_def] round_double_nonzero [OF nz e' n'] pos
    by simp
qed

lemma round_double_nonneg:
  assumes "0 \<le> q"
  shows "Math_abs (round_double q) = round_double q"
proof (cases "q = 0")
  case True
  then show ?thesis by (simp add: round_double_def)
next
  case False
  with assms have q: "0 < q" by simp
  define e where "e = max (ilog2 q) (- 1022)"
  define n where "n = round_half_even (q / pow2 (e - 52))"
  have "of_int 0 \<le> q / pow2 (e - 52)"
    using q by (simp add: less_imp_le)
  then have "0 \<le> n"
    unfolding n_def by (rule rhe_ge)
  then show ?thesis
    unfolding round_double_pos [OF q e_def n_def] by (simp add: less_imp_le)
qed

lemma Math_abs_neg: "Math_abs (js_neg v) = Math_abs v"
  by (cases v) simp_all

lemma Math_abs_round_double: "Math_abs (round_double q) = round_double \<bar>q\<bar>"
proof (cases "0 \<le> q")
  case True
  then show ?thesis by (simp add: round_double_nonneg)
next
  case False
  then have "0 \<le> - q" by simp
  then have "Math_abs (round_double (- q)) = round_double (- q)"
    by (rule round_double_nonneg)
  then show ?thesis
    using False by (simp add: round_double_minus Math_abs_neg abs_if)
qed

lemma tolerance_value: "tolerance = Fin (5764607523034235 / 2 ^ 59)"
  by code_simp

lemma round_double_small:
  assumes "0 < q" and "q < 1 / 128"
  shows "\<not> js_gt (round_double q) (Fin (5764607523034235 / 2 ^ 59))"
proof -
  define e where "e = max (ilog2 q) (- 1022)"
  define u where "u = pow2 (e - 52)"
  define n where "n = round_half_even (q / u)"
  have upos: "0 < u" by (simp add: u_def)
  from ilog2_bounds [OF assms(1)]
  have l: "pow2 (ilog2 q) \<le> q" and h: "q < pow2 (ilog2 q + 1)"
    by simp_all
  have "\<not> - 7 \<le> ilog2 q"
    using pow2_mono [of "- 7" "ilog2 q"] l assms(2) by (auto simp: pow2_values)
  then have e: "e \<le> - 8" and ie: "ilog2 q + 1 \<le> e + 1"
    by (simp_all add: e_def)
  have split: "pow2 (e + 1) = u * of_int (2 ^ 53)"
  proof -
    have "pow2 (e + 1) = pow2 ((e - 52) + 53)" by (rule arg_cong [where f = pow2]) simp
    also have "\<dots> = pow2 (e - 52) * pow2 53" by (rule pow2_add)
    finally show ?thesis by (simp only: u_def pow2_values)
  qed
  have "q < pow2 (e + 1)"
    using h pow2_mono [OF ie] by linarith
  then have "q < of_int (2 ^ 53) * u"
    by (simp only: split mult.commute)
  then have "q / u \<le> of_int (2 ^ 53)"
    using upos by (simp only: pos_divide_le_eq)
  then have "n \<le> 2 ^ 53"
    unfolding n_def by (rule rhe_le)
  then have "(of_int n :: rat) \<le> of_int (2 ^ 53)"
    by (simp only: of_int_le_iff)
  then have "of_int n * u \<le> of_int (2 ^ 53) * u"
    using upos by (intro mult_right_mono) (simp_all add: less_imp_le)
  also have "\<dots> = pow2 (e + 1)"
    by (simp only: split mult.commute)
  also have "\<dots> \<le> pow2 (- 7)"
    using e by (intro pow2_mono) simp
  finally have r: "of_int n * u \<le> 1 / 128"
    by (simp only: pow2_values)
  have "round_double q = Fin (of_int n * u)"
    using round_double_pos [OF assms(1) e_def, of n] e by (simp add: n_def u_def)
  then show ?thesis
    using r by simp
qed

lemma round_double_large:
  assumes "1 / 64 \<le> q"
  shows "js_gt (round_double q) (Fin (5764607523034235 / 2 ^ 59))"
proof -
  from assms have q: "0 < q" by simp
  define e where "e = max (ilog2 q) (- 1022)"
  define u where "u = pow2 (e - 52)"
  define n where "n = round_half_even (q / u)"
  have upos: "0 < u" by (simp add: u_def)
  from ilog2_bounds [OF q]
  have l: "pow2 (ilog2 q) \<le> q" and h: "q < pow2 (ilog2 q + 1)"
    by simp_all
  have "\<not> ilog2 q + 1 \<le> - 6"
    using pow2_mono [of "ilog2 q + 1" "- 6"] h assms by (auto simp: pow2_values)
  then have e: "e = ilog2 q" and e6: "- 6 \<le> e"
    by (simp_all add: e_def)
  have split: "pow2 e = of_int (2 ^ 52) * u"
  proof -
    have "pow2 e = pow2 ((e - 52) + 52)" by (rule arg_cong [where f = pow2]) simp
    also have "\<dots> = pow2 (e - 52) * pow2 52" by (rule pow2_add)
    finally show ?thesis by (simp only: u_def pow2_values mult.commute)
  qed
  have "of_int (2 ^ 52) * u \<le> q"
    using l by (simp only: split [symmetric] e)
  then have "of_int (2 ^ 52) \<le> q / u"
    using upos by (simp only: pos_le_divide_eq)
  then have "2 ^ 52 \<le> n"
    unfolding n_def by (rule rhe_ge)
  then have "(of_int (2 ^ 52) :: rat) \<le> of_int n"
    by (simp only: of_int_le_iff)
  then have "of_int (2 ^ 52) * u \<le> of_int n * u"
    using upos by (intro mult_right_mono) (simp_all add: less_imp_le)
  moreover have "pow2 (- 6) \<le> pow2 e"
    using e6 by (rule pow2_mono)
  ultimately have r: "1 / 64 \<le> of_int n * u"
    unfolding split [symmetric] pow2_values by linarith
  have "round_double q = PInf \<or> round_double q = Fin (of_int n * u)"
    using round_double_pos [OF q e_def, of n] by (simp add: n_def u_def)
  then show ?thesis
    using r by auto
qed

lemma round_double_binade:
  assumes "1 / 128 \<le> q" and "q < 1 / 64"
  shows "js_gt (round_double q) (Fin (5764607523034235 / 2 ^ 59))
           = (11529215046068471 / 2 ^ 60 \<le> q)"
proof -
  from assms have q: "0 < q" by simp
  define n where "n = round_half_even (q * 2 ^ 59)"
  have il: "ilog2 q = - 7"
    using assms by (intro ilog2_unique) (simp_all add: pow2_values)
  have rd: "round_double q = Fin (of_int n / 2 ^ 59)"
    using round_double_pos [OF q, of "- 7" n] il by (simp add: n_def pow2_values)
  have "js_gt (round_double q) (Fin (5764607523034235 / 2 ^ 59))
          = ((of_int 5764607523034235 :: rat) < of_int n)"
    unfolding rd by (simp add: divide_less_cancel)
  also have "\<dots> = (5764607523034235 < n)"
    by (simp only: of_int_less_iff)
  also have "\<dots> = (5764607523034236 \<le> n)"
    by linarith
  also have "\<dots> = (of_int 5764607523034236 - 1 / 2 \<le> q * 2 ^ 59)"
    unfolding n_def by (rule rhe_even_threshold) simp
  also have "\<dots> = (11529215046068471 / 2 ^ 60 \<le> q)"
    by (simp add: field_simps)
  finally show ?thesis .
qed

lemma round_double_gt_tolerance:
  assumes "0 \<le> q"
  shows "js_gt (round_double q) tolerance = (11529215046068471 / 2 ^ 60 \<le> q)"
proof -
  consider "q = 0" | "0 < q" "q < 1 / 128" | "1 / 128 \<le> q" "q < 1 / 64" | "1 / 64 \<le> q"
    using assms by linarith
  then show ?thesis
  proof cases
    case 1
    then show ?thesis by (simp add: tolerance_value round_double_def)
  next
    case 2
    from round_double_small [OF 2] 2(2) show ?thesis
      by (simp add: tolerance_value)
  next
    case 3
    from round_double_binade [OF 3] show ?thesis
      by (simp add: tolerance_value)
  next
    case 4
    from round_double_large [OF 4] 4 show ?thesis
      by (simp add: tolerance_value)
  qed
qed

lemma amount_mismatch_exact:
  "amount_mismatch (Some (Fin x)) (Some (Fin y)) = (11529215046068471 / 2 ^ 60 \<le> \<bar>x - y\<bar>)"
  by (simp add: Math_abs_round_double round_double_gt_tolerance)

section \<open>Matched pairs\<close>

lemma matched_pair:
  assumes "m \<in> set (matched (reconcile I P))"
  obtains i p where "i \<in> set I" and "build_map P (transaction_reference i) = Some p"
    and "m = match_of i p"
  using assms by (auto simp: reconcile_matched in_matches_of)

lemma match_of_sel [simp]:
  "internal (match_of i p) = i"
  "provider (match_of i p) = p"
  "reference (match_of i p) = transaction_reference i"
  "amountMatch (match_of i p) = (\<not> amount_mismatch (amount i) (amount p))"
  "statusMatch (match_of i p) = (\<not> status_mismatch (status i) (status p))"
  by (simp_all add: match_of_def)

lemma amount_mismatch_None [simp]:
  "amount_mismatch None y = False"
  "amount_mismatch x None = False"
  by (cases x; simp)+

lemma status_mismatch_None [simp]:
  "status_mismatch None y = False"
  "status_mismatch x None = False"
  by (cases x; simp)+

lemma status_mismatch_empty [simp]:
  "status_mismatch (Some []) y = False"
  "status_mismatch x (Some []) = False"
  by (cases y; simp) (cases x; simp)

lemma js_sub_NaN [simp]: "js_sub x NaN = NaN"
  by (cases x) simp_all

lemma amount_mismatch_NaN [simp]:
  "amount_mismatch (Some NaN) y = False"
  "amount_mismatch x (Some NaN) = False"
  by (cases y; simp) (cases x; simp)

lemma matches_of_map:
  "matches_of pm xs =
     map (\<lambda>i. match_of i (the (pm (transaction_reference i))))
       (filter (\<lambda>i. pm (transaction_reference i) \<noteq> None) xs)"
  by (induction xs) (auto simp: matches_of_Cons split: option.splits)

text \<open>
  C3. A lookup map built from a sequence holds, for each reference, the last record
  of the sequence with that reference (earlier ones are overwritten). The loop still
  visits every internal record: the internal records of \<open>matched\<close> are exactly the internal
  records whose reference occurs on the provider side, in order and with their duplicates,
  and each is paired with the last provider record of its reference.
\<close>

theorem last_write_wins:
  "build_map xs k =
     (if filter (\<lambda>r. transaction_reference r = k) xs = [] then None
      else Some (last (filter (\<lambda>r. transaction_reference r = k) xs)))
   \<and> map internal (matched (reconcile I P))
     = filter (\<lambda>i. transaction_reference i \<in> transaction_reference ` set P) I
   \<and> map provider (matched (reconcile I P))
     = map (\<lambda>i. last (filter (\<lambda>p. transaction_reference p = transaction_reference i) P))
         (filter (\<lambda>i. transaction_reference i \<in> transaction_reference ` set P) I)"
proof (intro conjI)
  show "build_map xs k =
     (if filter (\<lambda>r. transaction_reference r = k) xs = [] then None
      else Some (last (filter (\<lambda>r. transaction_reference r = k) xs)))"
    by (rule build_map_last)
next
  show "map internal (matched (reconcile I P))
     = filter (\<lambda>i. transaction_reference i \<in> transaction_reference ` set P) I"
    by (simp add: reconcile_matched matches_of_map comp_def build_map_None)
next
  have "map provider (matches_of (build_map P) I)
          = map (\<lambda>i. the (build_map P (transaction_reference i)))
              (filter (\<lambda>i. transaction_reference i \<in> transaction_reference ` set P) I)"
    by (simp add: matches_of_map comp_def build_map_None)
  also have "\<dots> = map (\<lambda>i. last (filter (\<lambda>p. transaction_reference p = transaction_reference i) P))
              (filter (\<lambda>i. transaction_reference i \<in> transaction_reference ` set P) I)"
    by (rule map_cong) (auto simp: build_map_last filter_empty_conv)
  finally show "map provider (matched (reconcile I P))
     = map (\<lambda>i. last (filter (\<lambda>p. transaction_reference p = transaction_reference i) P))
         (filter (\<lambda>i. transaction_reference i \<in> transaction_reference ` set P) I)"
    by (simp add: reconcile_matched)
qed

theorem last_write_wins_witness:
  "build_map [txA, txA_again] ''A'' = Some txA_again
   \<and> map internal (matched (reconcile [txA_blank, txB, txA_zero] [txA, txA_again]))
     = [txA_blank, txA_zero]
   \<and> map provider (matched (reconcile [txA_blank, txB, txA_zero] [txA, txA_again]))
     = [txA_again, txA_again]"
proof -
  have f: "filter (\<lambda>r. transaction_reference r = ''A'') [txA, txA_again] = [txA, txA_again]"
    by (simp add: txA_def txA_again_def)
  have i: "filter (\<lambda>i. transaction_reference i \<in> transaction_reference ` set [txA, txA_again])
             [txA_blank, txB, txA_zero] = [txA_blank, txA_zero]"
    by (simp add: txA_def txA_again_def txA_blank_def txB_def txA_zero_def)
  from last_write_wins [of "[txA, txA_again]" "''A''" "[txA_blank, txB, txA_zero]" "[txA, txA_again]"]
  show ?thesis
    unfolding i f by (simp add: txA_def txA_again_def txA_blank_def txA_zero_def)
qed

lemma boundary_values:
  "round_double (1 / 100) = Fin (5764607523034235 / 2 ^ 59)"
  "round_double (100001 / 10000000) = Fin (5764665169109465 / 2 ^ 59)"
  by code_simp+

text \<open>
  C4. The flag does not follow the exact difference of the two amounts: the amounts
  \<open>0.01\<close> and \<open>-1e-30\<close> lie more than \<open>0.01\<close> apart (more than the exact \<open>1/100\<close> and more
  than the double \<open>0.01\<close>), their difference in double arithmetic rounds to the double
  \<open>0.01\<close>, and the pair is a match.
\<close>

theorem amount_tolerance_counterexample:
  "amount txA_cent = Some (Fin (5764607523034235 / 2 ^ 59))
   \<and> amount txA_tiny = Some (Fin (- (178405961588245 / 2 ^ 147)))
   \<and> (1 / 100 :: rat) < \<bar>5764607523034235 / 2 ^ 59 - (- (178405961588245 / 2 ^ 147))\<bar>
   \<and> (5764607523034235 / 2 ^ 59 :: rat)
       < \<bar>5764607523034235 / 2 ^ 59 - (- (178405961588245 / 2 ^ 147))\<bar>
   \<and> matched (reconcile [txA_cent] [txA_tiny])
     = [\<lparr> reference = ''A'', internal = txA_cent, provider = txA_tiny,
          amountMatch = True, statusMatch = True \<rparr>]"
proof -
  have a: "amount txA_cent = Some (Fin (5764607523034235 / 2 ^ 59))"
    by code_simp
  have b: "amount txA_tiny = Some (Fin (- (178405961588245 / 2 ^ 147)))"
    by code_simp
  have r: "matched (reconcile [txA_cent] [txA_tiny])
     = [\<lparr> reference = ''A'', internal = txA_cent, provider = txA_tiny,
          amountMatch = True, statusMatch = True \<rparr>]"
    by code_simp
  from a b r show ?thesis by simp
qed

text \<open>
  C4, amended. For a matched pair with amounts on both sides: when both are finite,
  \<open>amountMatch\<close> is false exactly when the exact absolute difference of the two stored
  amounts is at least \<open>11529215046068471 / 2 ^ 60\<close>, the midpoint between the double \<open>0.01\<close>
  and the next double above it; so a difference that is exactly the double \<open>0.01\<close> is a
  match and a difference that is exactly the double \<open>0.0100001\<close> is a mismatch. A
  not-a-number amount on either side is a match, and with an infinite amount the pair
  is a mismatch unless both amounts are the same infinity.
\<close>

theorem amount_flag_threshold:
  assumes "m \<in> set (matched (reconcile I P))"
    and "amount (internal m) = Some a" and "amount (provider m) = Some b"
  shows "(\<forall>x y. a = Fin x \<and> b = Fin y \<longrightarrow>
            (\<not> amountMatch m) = (11529215046068471 / 2 ^ 60 \<le> \<bar>x - y\<bar>)
            \<and> (Fin \<bar>x - y\<bar> = round_double (1 / 100) \<longrightarrow> amountMatch m)
            \<and> (Fin \<bar>x - y\<bar> = round_double (100001 / 10000000) \<longrightarrow> \<not> amountMatch m))
       \<and> (a = NaN \<or> b = NaN \<longrightarrow> amountMatch m)
       \<and> (a \<noteq> NaN \<and> b \<noteq> NaN \<and> (a \<in> {PInf, NInf} \<or> b \<in> {PInf, NInf})
            \<longrightarrow> (\<not> amountMatch m) = (a \<noteq> b))"
proof -
  from assms(1) obtain i p where m: "m = match_of i p"
    by (rule matched_pair)
  from assms(2,3) have f: "(\<not> amountMatch m) = amount_mismatch (Some a) (Some b)"
    unfolding m by simp
  have fin: "(\<not> amountMatch m) = (11529215046068471 / 2 ^ 60 \<le> \<bar>x - y\<bar>)
      \<and> (Fin \<bar>x - y\<bar> = round_double (1 / 100) \<longrightarrow> amountMatch m)
      \<and> (Fin \<bar>x - y\<bar> = round_double (100001 / 10000000) \<longrightarrow> \<not> amountMatch m)"
    if "a = Fin x \<and> b = Fin y" for x y
  proof -
    from that f have t: "(\<not> amountMatch m) = (11529215046068471 / 2 ^ 60 \<le> \<bar>x - y\<bar>)"
      by (simp only: amount_mismatch_exact)
    from t have t': "amountMatch m = (\<not> 11529215046068471 / 2 ^ 60 \<le> \<bar>x - y\<bar>)"
      by blast
    have lo: "amountMatch m" if d: "\<bar>x - y\<bar> = 5764607523034235 / 2 ^ 59"
    proof -
      have "amountMatch m = (\<not> 11529215046068471 / 2 ^ 60 \<le> (5764607523034235 / 2 ^ 59 :: rat))"
        using t' by (simp only: d)
      then show ?thesis by simp
    qed
    have hi: "\<not> amountMatch m" if d: "\<bar>x - y\<bar> = 5764665169109465 / 2 ^ 59"
    proof -
      have "amountMatch m = (\<not> 11529215046068471 / 2 ^ 60 \<le> (5764665169109465 / 2 ^ 59 :: rat))"
        using t' by (simp only: d)
      then show ?thesis by simp
    qed
    show ?thesis
      unfolding boundary_values jsnum.inject using t lo hi by blast
  qed
  have nan: "a = NaN \<or> b = NaN \<longrightarrow> amountMatch m"
    using f by auto
  have inf: "a \<noteq> NaN \<and> b \<noteq> NaN \<and> (a \<in> {PInf, NInf} \<or> b \<in> {PInf, NInf})
      \<longrightarrow> (\<not> amountMatch m) = (a \<noteq> b)"
    unfolding f by (cases a; cases b) (simp_all add: tolerance_value)
  from fin nan inf show ?thesis by blast
qed

theorem amount_flag_threshold_witness:
  "amount txA_100 = Some (Fin 100)
   \<and> amount txA_100_01 = Some (Fin (7037578105208177 / 2 ^ 46))
   \<and> (11529215046068471 / 2 ^ 60 :: rat) \<le> \<bar>100 - 7037578105208177 / 2 ^ 46\<bar>
   \<and> matched (reconcile [txA_100] [txA_100_01])
     = [\<lparr> reference = ''A'', internal = txA_100, provider = txA_100_01,
          amountMatch = False, statusMatch = True \<rparr>]
   \<and> amount txA_cent = Some (Fin (5764607523034235 / 2 ^ 59))
   \<and> amount txA_zero = Some (Fin 0)
   \<and> Fin \<bar>5764607523034235 / 2 ^ 59 - 0\<bar> = round_double (1 / 100)
   \<and> matched (reconcile [txA_cent] [txA_zero])
     = [\<lparr> reference = ''A'', internal = txA_cent, provider = txA_zero,
          amountMatch = True, statusMatch = True \<rparr>]"
proof -
  let ?m1 = "\<lparr> reference = ''A'', internal = txA_100, provider = txA_100_01,
               amountMatch = False, statusMatch = True \<rparr>"
  let ?m2 = "\<lparr> reference = ''A'', internal = txA_cent, provider = txA_zero,
               amountMatch = True, statusMatch = True \<rparr>"
  have a1: "amount txA_100 = Some (Fin 100)"
    and b1: "amount txA_100_01 = Some (Fin (7037578105208177 / 2 ^ 46))"
    and a2: "amount txA_cent = Some (Fin (5764607523034235 / 2 ^ 59))"
    by code_simp+
  have b2: "amount txA_zero = Some (Fin 0)"
    by (simp add: txA_zero_def)
  have r1: "matched (reconcile [txA_100] [txA_100_01]) = [?m1]"
    by code_simp
  have r2: "matched (reconcile [txA_cent] [txA_zero]) = [?m2]"
    by code_simp
  have i1: "?m1 \<in> set (matched (reconcile [txA_100] [txA_100_01]))"
    by (simp add: r1)
  have i2: "?m2 \<in> set (matched (reconcile [txA_cent] [txA_zero]))"
    by (simp add: r2)
  have t1: "amount (internal ?m1) = Some (Fin 100)"
    and t2: "amount (provider ?m1) = Some (Fin (7037578105208177 / 2 ^ 46))"
    and t3: "amount (internal ?m2) = Some (Fin (5764607523034235 / 2 ^ 59))"
    and t4: "amount (provider ?m2) = Some (Fin 0)"
    by (simp_all add: a1 b1 a2 b2)
  from amount_flag_threshold [OF i1 t1 t2] amount_flag_threshold [OF i2 t3 t4]
  show ?thesis
    using a1 b1 a2 b2 r1 r2 by (simp add: boundary_values)
qed

text \<open>
  The difference is that of the stored doubles: \<open>100.01\<close> and \<open>100.00\<close> are stored as
  doubles that lie \<open>0.010000000000005116\<close> apart, which is flagged.
\<close>

lemma cent_apart_is_flagged:
  "amount_mismatch (Some (parse_float_string ''100.01'')) (Some (parse_float_string ''100.00''))"
  by code_simp

text \<open>
  C5. A matched pair with a not-a-number amount on one side is not flagged: the
  comparison with the tolerance is false, \<open>amountMatch\<close> stays true and the pair is not
  in \<open>amountMismatches\<close>. The reconciliation is a total function: it has no failing
  branch for such a record.
\<close>

theorem nan_amount_not_flagged:
  assumes "m \<in> set (matched (reconcile I P))"
    and "amount (internal m) = Some NaN \<or> amount (provider m) = Some NaN"
  shows "amountMatch m \<and> m \<notin> set (amountMismatches (reconcile I P))"
proof -
  from assms(1) obtain i p where m: "m = match_of i p"
    by (rule matched_pair)
  from assms(2) have "amountMatch m"
    unfolding m by auto
  then show ?thesis
    by (simp add: reconcile_amountMismatches)
qed

theorem nan_amount_not_flagged_witness:
  "processData [row_text_amount]
     = [\<lparr> transaction_reference = ''A'', amount = Some NaN, status = None, other = [] \<rparr>]
   \<and> matched (reconcile (processData [row_text_amount]) [txA])
     = [\<lparr> reference = ''A'',
          internal = \<lparr> transaction_reference = ''A'', amount = Some NaN, status = None,
                       other = [] \<rparr>,
          provider = txA, amountMatch = True, statusMatch = True \<rparr>]
   \<and> amountMismatches (reconcile (processData [row_text_amount]) [txA]) = []"
proof -
  let ?i = "\<lparr> transaction_reference = ''A'', amount = Some NaN, status = None, other = [] \<rparr>"
  let ?m = "\<lparr> reference = ''A'', internal = ?i, provider = txA,
              amountMatch = True, statusMatch = True \<rparr>"
  have d: "processData [row_text_amount] = [?i]"
    by code_simp
  have r: "matched (reconcile [?i] [txA]) = [?m]"
    by code_simp
  have a: "amountMismatches (reconcile [?i] [txA]) = []"
    by code_simp
  have "?m \<in> set (matched (reconcile [?i] [txA]))"
    by (simp add: r)
  from nan_amount_not_flagged [OF this] show ?thesis
    using d r a by simp
qed

text \<open>
  C6. For a matched pair, a \<open>null\<close> amount on either side leaves \<open>amountMatch\<close> true and
  a \<open>null\<close> status on either side leaves \<open>statusMatch\<close> true, whatever the other side holds.
\<close>

theorem null_side_never_flags:
  assumes "m \<in> set (matched (reconcile I P))"
  shows "(amount (internal m) = None \<or> amount (provider m) = None \<longrightarrow> amountMatch m)
       \<and> (status (internal m) = None \<or> status (provider m) = None \<longrightarrow> statusMatch m)"
proof -
  from assms obtain i p where m: "m = match_of i p"
    by (rule matched_pair)
  show ?thesis
    unfolding m by auto
qed

theorem null_side_never_flags_witness:
  "matched (reconcile [txA_blank] [txA])
     = [\<lparr> reference = ''A'', internal = txA_blank, provider = txA,
          amountMatch = True, statusMatch = True \<rparr>]
   \<and> amount txA_blank = None \<and> status txA_blank = None
   \<and> amount txA = Some (Fin 100) \<and> status txA = Some ''paid''"
proof -
  let ?m = "\<lparr> reference = ''A'', internal = txA_blank, provider = txA,
              amountMatch = True, statusMatch = True \<rparr>"
  have r: "matched (reconcile [txA_blank] [txA]) = [?m]"
    by code_simp
  then have "?m \<in> set (matched (reconcile [txA_blank] [txA]))"
    by simp
  from null_side_never_flags [OF this] show ?thesis
    using r by (simp add: txA_blank_def txA_def)
qed

section \<open>Normalisation\<close>

lemma lower_char_ws: "is_ws c \<Longrightarrow> lower_char c = c"
  by (auto simp: is_ws_def lower_char_def)

lemma toLowerCase_ws: "\<forall>c\<in>set s. is_ws c \<Longrightarrow> toLowerCase s = s"
  by (simp add: toLowerCase_def lower_char_ws map_idI)

lemma trim_ws:
  assumes "\<forall>c\<in>set s. is_ws c"
  shows "trim s = []"
proof -
  from assms have "dropWhile is_ws s = []"
    by (simp only: dropWhile_eq_Nil_conv)
  then show ?thesis
    by (simp add: trim_def del: dropWhile_eq_Nil_conv)
qed

lemma processRow_amount:
  "amount (processRow r) =
     (if truthy (field r ''amount'') then Some (parseFloat (field r ''amount'')) else None)"
  by (simp add: processRow_def)

lemma processRow_status:
  "status (processRow r) =
     (if truthy (field r ''status'')
      then Some (trim (toLowerCase (js_String (field r ''status'')))) else None)"
  by (simp add: processRow_def)

text \<open>
  C10. A raw status that is a non-empty string of white space only is normalised to
  the empty string, not to \<open>null\<close>; and a matched pair with the empty string as status on
  either side is not compared: \<open>statusMatch\<close> stays true.
\<close>

theorem blank_status_is_empty_and_unflagged:
  "(field r ''status'' = JStr s \<and> s \<noteq> [] \<and> (\<forall>c\<in>set s. is_ws c)
      \<longrightarrow> status (processRow r) = Some [])
   \<and> (m \<in> set (matched (reconcile I P))
        \<and> (status (internal m) = Some [] \<or> status (provider m) = Some [])
      \<longrightarrow> statusMatch m)"
proof (intro conjI impI)
  assume "field r ''status'' = JStr s \<and> s \<noteq> [] \<and> (\<forall>c\<in>set s. is_ws c)"
  then show "status (processRow r) = Some []"
    by (simp add: processRow_status toLowerCase_ws trim_ws)
next
  assume h: "m \<in> set (matched (reconcile I P))
      \<and> (status (internal m) = Some [] \<or> status (provider m) = Some [])"
  then obtain i p where m: "m = match_of i p"
    by (blast elim: matched_pair)
  from h show "statusMatch m"
    unfolding m by auto
qed

theorem blank_status_is_empty_and_unflagged_witness:
  "field row_blank_status ''status'' = JStr ''  '' \<and> list_all is_ws ''  ''
   \<and> processData [row_blank_status]
     = [\<lparr> transaction_reference = ''A'', amount = None, status = Some [], other = [] \<rparr>]
   \<and> matched (reconcile (processData [row_blank_status]) [txA])
     = [\<lparr> reference = ''A'',
          internal = \<lparr> transaction_reference = ''A'', amount = None, status = Some [],
                       other = [] \<rparr>,
          provider = txA, amountMatch = True, statusMatch = True \<rparr>]"
proof -
  let ?i = "\<lparr> transaction_reference = ''A'', amount = None, status = Some [], other = [] \<rparr>"
  let ?m = "\<lparr> reference = ''A'', internal = ?i, provider = txA,
              amountMatch = True, statusMatch = True \<rparr>"
  have f: "field row_blank_status ''status'' = JStr ''  ''"
    by (simp add: field_def row_blank_status_def)
  have w: "\<forall>c\<in>set ''  ''. is_ws c" and l: "list_all is_ws ''  ''"
    by (simp_all add: is_ws_def)
  have d: "processData [row_blank_status] = [?i]"
    by code_simp
  have r: "matched (reconcile [?i] [txA]) = [?m]"
    by code_simp
  have i: "?m \<in> set (matched (reconcile [?i] [txA]))"
    by (simp add: r)
  from blank_status_is_empty_and_unflagged
         [of row_blank_status "''  ''" ?m "[?i]" "[txA]"]
  show ?thesis
    using f w l d r i by simp
qed

text \<open>
  C2. The amount is tested for truthiness, not for presence: a row whose amount cell is
  the number \<open>0\<close> has a raw amount that is present and parses to \<open>0\<close>, and is stored with
  the amount \<open>null\<close>.
\<close>

theorem zero_amount_stored_as_null:
  "field row_zero_amount ''amount'' = JNum (Fin 0)
   \<and> parseFloat (JNum (Fin 0)) = Fin 0
   \<and> amount (processRow row_zero_amount) = None"
proof -
  have f: "field row_zero_amount ''amount'' = JNum (Fin 0)"
    by (simp add: field_def row_zero_amount_def)
  have p: "parseFloat (JNum (Fin 0)) = Fin 0"
    by code_simp
  from f p show ?thesis
    by (simp add: processRow_amount)
qed

text \<open>Such a record is then never flagged for its amount, here against an amount of 100.\<close>

lemma zero_amount_escapes_comparison:
  "amountMatch (match_of (processRow row_zero_amount) txA)"
  by (simp add: match_of_def processRow_amount field_def row_zero_amount_def)

section \<open>Upload errors\<close>

lemma missing_columns_reference:
  assumes "''transaction_reference'' \<notin> set (case meta_fields res of None \<Rightarrow> [] | Some fs \<Rightarrow> fs)"
  shows "missing_columns res = [''transaction_reference'']"
  using assms by (simp add: missing_columns_def requiredColumns_def)

text \<open>
  C8. A file whose header lacks \<open>transaction_reference\<close> does not always get the message
  that names the missing column: the parser's errors are looked at first, and a file
  that also has a short row gets the parsing error as its message.
\<close>

theorem missing_reference_counterexample:
  "meta_fields results_without_reference_short_row = Some [''id'', ''amount'']
   \<and> ''transaction_reference'' \<notin> set [''id'', ''amount'']
   \<and> uploadErrors
       (handleFileUpload (Some ''provider.csv'') Provider
          (Complete results_without_reference_short_row) state_internal_loaded) Provider
     = Some ''CSV parsing error: Too few fields: expected 2 fields but parsed 1''
   \<and> uploadErrors
       (handleFileUpload (Some ''provider.csv'') Provider
          (Complete results_without_reference_short_row) state_internal_loaded) Provider
     \<noteq> Some ''Missing required columns: transaction_reference''"
  by (simp add: handleFileUpload_def complete_def set_upload_error_def
      results_without_reference_short_row_def)

text \<open>
  C8, amended. For a file that the parser reports no error for and whose header lacks
  \<open>transaction_reference\<close>, the upload ends with the message naming the missing column
  for that side and changes nothing else: no record of the file is stored, and the data
  of both sides and the other side's error are as before.
\<close>

theorem missing_reference_rejected:
  assumes "errors res = []"
    and "''transaction_reference'' \<notin> set (case meta_fields res of None \<Rightarrow> [] | Some fs \<Rightarrow> fs)"
  shows "handleFileUpload (Some f) type (Complete res) s
           = s\<lparr> uploadErrors :=
                  (uploadErrors s)(type := Some ''Missing required columns: transaction_reference'') \<rparr>
       \<and> internalData (handleFileUpload (Some f) type (Complete res) s) = internalData s
       \<and> providerData (handleFileUpload (Some f) type (Complete res) s) = providerData s
       \<and> (\<forall>t. t \<noteq> type \<longrightarrow>
             uploadErrors (handleFileUpload (Some f) type (Complete res) s) t = uploadErrors s t)"
proof -
  have "handleFileUpload (Some f) type (Complete res) s
          = s\<lparr> uploadErrors :=
                 (uploadErrors s)(type := Some ''Missing required columns: transaction_reference'') \<rparr>"
    using assms(1)
    by (simp add: handleFileUpload_def complete_def set_upload_error_def
        missing_columns_reference [OF assms(2)])
  then show ?thesis by simp
qed

theorem missing_reference_rejected_witness:
  "errors results_without_reference = []
   \<and> meta_fields results_without_reference = Some [''id'', ''amount'']
   \<and> ''transaction_reference'' \<notin> set [''id'', ''amount'']
   \<and> uploadErrors
       (handleFileUpload (Some ''provider.csv'') Provider
          (Complete results_without_reference) state_internal_loaded) Provider
     = Some ''Missing required columns: transaction_reference''
   \<and> uploadErrors
       (handleFileUpload (Some ''provider.csv'') Provider
          (Complete results_without_reference) state_internal_loaded) Internal = None
   \<and> providerData
       (handleFileUpload (Some ''provider.csv'') Provider
          (Complete results_without_reference) state_internal_loaded) = []
   \<and> internalData
       (handleFileUpload (Some ''provider.csv'') Provider
          (Complete results_without_reference) state_internal_loaded) = [txA]"
proof -
  have e: "errors results_without_reference = []"
    and m: "meta_fields results_without_reference = Some [''id'', ''amount'']"
    and h: "''transaction_reference''
       \<notin> set (case meta_fields results_without_reference of None \<Rightarrow> [] | Some fs \<Rightarrow> fs)"
    by (simp_all add: results_without_reference_def)
  from missing_reference_rejected [OF e h, of "''provider.csv''" Provider state_internal_loaded]
  show ?thesis
    using e m by (simp add: state_internal_loaded_def initial_state_def)
qed

section \<open>Reconciliation without data\<close>

text \<open>
  C9. With no internal data or no provider data, \<open>performReconciliation\<close> returns the
  state as it is: the stored results stay, no flag is set and no timer is started.
\<close>

theorem empty_side_is_noop:
  assumes "internalData s = [] \<or> providerData s = []"
  shows "performReconciliation s = s \<and> performReconciliation_sync s = s"
  using assms by (auto simp: performReconciliation_def performReconciliation_sync_def)

theorem empty_side_is_noop_witness:
  "(internalData state_internal_loaded = [] \<or> providerData state_internal_loaded = [])
   \<and> internalData state_internal_loaded = [txA]
   \<and> performReconciliation state_internal_loaded = state_internal_loaded
   \<and> performReconciliation_sync state_internal_loaded = state_internal_loaded
   \<and> reconciliationResults (performReconciliation state_internal_loaded) = None
   \<and> timers (performReconciliation state_internal_loaded) = []"
proof -
  have p: "providerData state_internal_loaded = []"
    and i: "internalData state_internal_loaded = [txA]"
    and r: "reconciliationResults state_internal_loaded = None"
    and t: "timers state_internal_loaded = []"
    by (simp_all add: state_internal_loaded_def initial_state_def)
  from empty_side_is_noop [of state_internal_loaded] show ?thesis
    using p i r t by simp
qed

text \<open>
  With data on both sides the call schedules the reconciliation of the two sequences,
  and the callback (or, without the timers, the call itself) stores its result.
\<close>

lemma performReconciliation_schedules:
  assumes "internalData s \<noteq> []" and "providerData s \<noteq> []"
  shows "performReconciliation s =
           s\<lparr> isProcessing := True, showResults := False,
              timers := timers s @ [(2000, ReconcileTask (internalData s) (providerData s))] \<rparr>"
    and "reconciliationResults (run_task (ReconcileTask (internalData s) (providerData s)) s')
           = Some (reconcile (internalData s) (providerData s))"
    and "reconciliationResults (performReconciliation_sync s)
           = Some (reconcile (internalData s) (providerData s))"
  using assms by (simp_all add: performReconciliation_def performReconciliation_sync_def)

section \<open>A worked upload\<close>

text \<open>
  An internal row with the amount 100 and the status \<open>paid\<close> against a provider row with
  the amount 100.005 and the status \<open>PAID\<close>, both through normalisation and reconciliation:
  one matched pair, no flag.
\<close>

lemma upload_and_reconcile_example:
  "matched
     (reconcile
        (processData
           [[(''transaction_reference'', JStr ''A''), (''amount'', JNum (Fin 100)),
             (''status'', JStr ''paid'')]])
        (processData
           [[(''transaction_reference'', JStr ''A''),
             (''amount'', JNum (Fin (879653282685911 / 8796093022208))),
             (''status'', JStr '' PAID '')]]))
   = [\<lparr> reference = ''A'',
        internal = \<lparr> transaction_reference = ''A'', amount = Some (Fin 100),
                     status = Some ''paid'', other = [] \<rparr>,
        provider = \<lparr> transaction_reference = ''A'',
                     amount = Some (Fin (879653282685911 / 8796093022208)),
                     status = Some ''paid'', other = [] \<rparr>,
        amountMatch = True, statusMatch = True \<rparr>]"
  by code_simp

end
